theory Spec2Isabelle
  imports Complex_Main "HOL-Library.AList"
begin

section \<open>JavaScript numbers that may leave the finite range\<close>

text \<open>
  Every number of the program is a JavaScript double. Timestamps (\<open>Date.now()\<close>), sizes
  (\<open>str.length * 2\<close>), the TTL in seconds and the two counters are integers there and are
  modelled as \<open>int\<close> or \<open>nat\<close>. \<open>avgAccessTime\<close> is the one field computed by an unguarded
  division, so it is modelled by a finite value or one of the three special doubles.
  Finite values are exact reals: rounding and overflow to infinity are not modelled, and
  the two zeros are identified. The only divisor of the program that can be zero is
  \<open>hits + misses\<close>, which is \<open>+0\<close>, so a zero divisor is read as \<open>+0\<close>.
\<close>

datatype jsnum = Fin real | PInf | NInf | NaN

fun js_add :: "jsnum \<Rightarrow> jsnum \<Rightarrow> jsnum" where
  "js_add NaN _ = NaN"
| "js_add _ NaN = NaN"
| "js_add (Fin a) (Fin b) = Fin (a + b)"
| "js_add PInf NInf = NaN"
| "js_add NInf PInf = NaN"
| "js_add PInf _ = PInf"
| "js_add _ PInf = PInf"
| "js_add NInf _ = NInf"
| "js_add _ NInf = NInf"

fun js_mul :: "jsnum \<Rightarrow> jsnum \<Rightarrow> jsnum" where
  "js_mul NaN _ = NaN"
| "js_mul _ NaN = NaN"
| "js_mul (Fin a) (Fin b) = Fin (a * b)"
| "js_mul (Fin a) PInf = (if a = 0 then NaN else if 0 < a then PInf else NInf)"
| "js_mul (Fin a) NInf = (if a = 0 then NaN else if 0 < a then NInf else PInf)"
| "js_mul PInf (Fin b) = (if b = 0 then NaN else if 0 < b then PInf else NInf)"
| "js_mul NInf (Fin b) = (if b = 0 then NaN else if 0 < b then NInf else PInf)"
| "js_mul PInf PInf = PInf"
| "js_mul NInf NInf = PInf"
| "js_mul PInf NInf = NInf"
| "js_mul NInf PInf = NInf"

fun js_div :: "jsnum \<Rightarrow> jsnum \<Rightarrow> jsnum" where
  "js_div NaN _ = NaN"
| "js_div _ NaN = NaN"
| "js_div (Fin a) (Fin b) =
     (if b = 0 then (if a = 0 then NaN else if 0 < a then PInf else NInf)
      else Fin (a / b))"
| "js_div (Fin a) PInf = Fin 0"
| "js_div (Fin a) NInf = Fin 0"
| "js_div PInf (Fin b) = (if 0 \<le> b then PInf else NInf)"
| "js_div NInf (Fin b) = (if 0 \<le> b then NInf else PInf)"
| "js_div PInf PInf = NaN"
| "js_div PInf NInf = NaN"
| "js_div NInf PInf = NaN"
| "js_div NInf NInf = NaN"

fun js_finite :: "jsnum \<Rightarrow> bool" where
  "js_finite (Fin a) = True"
| "js_finite PInf = False"
| "js_finite NInf = False"
| "js_finite NaN = False"

section \<open>Data model (types.ts)\<close>

text \<open>
  \<open>CacheEntry\<close>, \<open>CacheStats\<close> and \<open>CacheConfig\<close> of types.ts. The fields \<open>value\<close> and
  \<open>size\<close> carry a suffix, their plain names being taken in HOL. \<open>CacheConfig\<close> has every
  field optional; the manager keeps a \<open>Required<CacheConfig>\<close>.
\<close>

record 'v cacheEntry =
  value_e :: 'v
  created :: int
  lastAccessed :: int
  ttl :: "int option"
  size_e :: nat

record cacheStats =
  totalEntries :: nat
  memoryUsage :: int
  hits :: nat
  misses :: nat
  hitRate :: real
  avgAccessTime :: jsnum

record cacheConfig =
  maxEntries_opt :: "nat option"
  maxMemory_opt :: "int option"
  defaultTTL_opt :: "int option"
  checkInterval_opt :: "int option"
  statsInterval_opt :: "int option"

record requiredCacheConfig =
  maxEntries :: nat
  maxMemory :: int
  defaultTTL :: int
  checkInterval :: int
  statsInterval :: int

text \<open>
  \<open>sendSseEvent\<close> of index.ts writes one payload to every connected client. The model keeps
  the sequence of events sent: \<open>'cache-set'\<close> with \<open>{key, value}\<close> and \<open>'cache-delete'\<close>
  with \<open>{key}\<close>.
\<close>

datatype 'v sseEvent = CacheSet string 'v | CacheDelete string

text \<open>
  The state of a \<open>CacheManager\<close>. A JavaScript \<open>Map\<close> iterates in insertion order, and
  setting a key that is present keeps its position: the map is an association list in
  insertion order, with \<open>AList.update\<close> and \<open>AList.delete\<close> for \<open>Map.set\<close> and
  \<open>Map.delete\<close>. The two timers are not part of the state.
\<close>

record 'v cacheManager =
  cache :: "(string \<times> 'v cacheEntry) list"
  stats :: cacheStats
  config :: requiredCacheConfig
  sse :: "'v sseEvent list"

text \<open>
  Exceptions. \<open>TypeError\<close> and \<open>RangeError\<close> are raised by the runtime: the first by
  \<open>JSON.stringify\<close> on a cyclic structure or a BigInt and by reading \<open>.length\<close> of
  \<open>undefined\<close>, the second by \<open>JSON.stringify\<close> on a value nested too deeply. \<open>Thrown\<close>
  is any other value thrown by code that \<open>JSON.stringify\<close> calls (a \<open>toJSON\<close> method, a
  getter), named by a string. \<open>SerializationError\<close> is the kind the specification names;
  the source defines no such class and no operation of it constructs one.
\<close>

datatype error = TypeError | RangeError | SerializationError | Thrown string

text \<open>
  The outcomes of \<open>JSON.stringify(value)\<close>: a string, \<open>undefined\<close> (for \<open>undefined\<close>, a
  function or a symbol), or an exception. The serializer is a parameter of the operations
  that call it.
\<close>

datatype jsonResult = JsonString string | JsonUndefined | JsonThrows error

section \<open>Operations (CacheManager.ts)\<close>

definition resetStats :: "'v cacheManager \<Rightarrow> 'v cacheManager" where
  "resetStats c =
     c\<lparr>stats := \<lparr>totalEntries = 0, memoryUsage = 0, hits = 0, misses = 0,
                   hitRate = 0, avgAccessTime = Fin 0\<rparr>\<rparr>"

definition new_CacheManager :: "cacheConfig \<Rightarrow> 'v cacheManager" where
  "new_CacheManager cfg =
     \<lparr>cache = [],
      stats = \<lparr>totalEntries = 0, memoryUsage = 0, hits = 0, misses = 0,
                hitRate = 0, avgAccessTime = Fin 0\<rparr>,
      config = \<lparr>maxEntries = (case maxEntries_opt cfg of Some n \<Rightarrow> n | None \<Rightarrow> 1000),
                 maxMemory = (case maxMemory_opt cfg of Some n \<Rightarrow> n | None \<Rightarrow> 100 * 1024 * 1024),
                 defaultTTL = (case defaultTTL_opt cfg of Some n \<Rightarrow> n | None \<Rightarrow> 3600),
                 checkInterval = (case checkInterval_opt cfg of Some n \<Rightarrow> n | None \<Rightarrow> 60 * 1000),
                 statsInterval = (case statsInterval_opt cfg of Some n \<Rightarrow> n | None \<Rightarrow> 30 * 1000)\<rparr>,
      sse = []\<rparr>"

text \<open>
  \<open>calculateSize\<close> has no \<open>try\<close>: an exception of \<open>JSON.stringify\<close> leaves it unchanged,
  and \<open>str.length\<close> raises a \<open>TypeError\<close> when \<open>str\<close> is \<open>undefined\<close>.
\<close>

definition calculateSize :: "('v \<Rightarrow> jsonResult) \<Rightarrow> 'v \<Rightarrow> error + nat" where
  "calculateSize stringify v =
     (case stringify v of
        JsonString str \<Rightarrow> Inr (length str * 2)
      | JsonUndefined \<Rightarrow> Inl TypeError
      | JsonThrows e \<Rightarrow> Inl e)"

definition updateHitRate :: "'v cacheManager \<Rightarrow> 'v cacheManager" where
  "updateHitRate c =
     (let total = hits (stats c) + misses (stats c)
      in c\<lparr>stats := (stats c)\<lparr>hitRate :=
             (if total > 0 then real (hits (stats c)) / real total * 100 else 0)\<rparr>\<rparr>)"

definition updateAccessTime :: "'v cacheManager \<Rightarrow> real \<Rightarrow> 'v cacheManager" where
  "updateAccessTime c duration =
     (let total = hits (stats c) + misses (stats c)
      in c\<lparr>stats := (stats c)\<lparr>avgAccessTime :=
             js_div (js_add (js_mul (avgAccessTime (stats c)) (Fin (real_of_int (int total - 1))))
                            (Fin duration))
                    (Fin (real total))\<rparr>\<rparr>)"

definition isExpired :: "'v cacheManager \<Rightarrow> int \<Rightarrow> 'v cacheEntry \<Rightarrow> bool" where
  "isExpired c now entry \<longleftrightarrow>
     now > created entry + (case ttl entry of Some t \<Rightarrow> t | None \<Rightarrow> defaultTTL (config c)) * 1000"

definition delete :: "'v cacheManager \<Rightarrow> string \<Rightarrow> bool \<times> 'v cacheManager" where
  "delete c key =
     (case map_of (cache c) key of
        Some entry \<Rightarrow>
          (let c1 = c\<lparr>stats := (stats c)\<lparr>memoryUsage := memoryUsage (stats c) - int (size_e entry)\<rparr>\<rparr>;
               c2 = c1\<lparr>cache := AList.delete key (cache c1)\<rparr>;
               c3 = c2\<lparr>stats := (stats c2)\<lparr>totalEntries := length (cache c2)\<rparr>\<rparr>;
               c4 = c3\<lparr>sse := sse c3 @ [CacheDelete key]\<rparr>
           in (True, c4))
      | None \<Rightarrow> (False, c))"

text \<open>
  The \<open>while\<close> loop of \<open>enforceMemoryLimit\<close>: \<open>entries\<close> is the sorted snapshot, shortened
  by \<open>shift\<close> in every round; the condition reads the live statistics.
\<close>

fun enforceMemoryLimit_loop ::
  "nat \<Rightarrow> (string \<times> 'v cacheEntry) list \<Rightarrow> 'v cacheManager \<Rightarrow> 'v cacheManager" where
  "enforceMemoryLimit_loop requiredSize [] c = c"
| "enforceMemoryLimit_loop requiredSize (p # entries) c =
     (if memoryUsage (stats c) + int requiredSize > maxMemory (config c)
      then enforceMemoryLimit_loop requiredSize entries (snd (delete c (fst p)))
      else c)"

text \<open>
  \<open>Array.prototype.sort\<close> is stable, and so is \<open>sort_key\<close>: entries with equal
  \<open>lastAccessed\<close> stay in insertion order.
\<close>

definition enforceMemoryLimit :: "'v cacheManager \<Rightarrow> nat \<Rightarrow> 'v cacheManager" where
  "enforceMemoryLimit c requiredSize =
     enforceMemoryLimit_loop requiredSize
       (sort_key (\<lambda>p. lastAccessed (snd p)) (cache c)) c"

text \<open>
  \<open>set\<close>. \<open>tCreated\<close> and \<open>tAccessed\<close> are the two readings of \<open>Date.now()\<close>, \<open>duration\<close>
  is \<open>endTime - startTime\<close>. An exception of \<open>calculateSize\<close> leaves \<open>set\<close> before any
  assignment, so the error result carries no state.
\<close>

definition set_op ::
  "('v \<Rightarrow> jsonResult) \<Rightarrow> 'v cacheManager \<Rightarrow> string \<Rightarrow> 'v \<Rightarrow> int option \<Rightarrow> int \<Rightarrow> int \<Rightarrow> real
     \<Rightarrow> error + 'v cacheManager" where
  "set_op stringify c key v ttl_arg tCreated tAccessed duration =
     (case calculateSize stringify v of
        Inl e \<Rightarrow> Inl e
      | Inr sz \<Rightarrow>
          (let c1 = (if memoryUsage (stats c) + int sz > maxMemory (config c)
                     then enforceMemoryLimit c sz else c);
               entry = \<lparr>value_e = v, created = tCreated, lastAccessed = tAccessed,
                        ttl = Some (case ttl_arg of Some t \<Rightarrow> t | None \<Rightarrow> defaultTTL (config c1)),
                        size_e = sz\<rparr>;
               c2 = c1\<lparr>cache := AList.update key entry (cache c1)\<rparr>;
               c3 = c2\<lparr>stats := (stats c2)\<lparr>totalEntries := length (cache c2)\<rparr>\<rparr>;
               c4 = c3\<lparr>stats := (stats c3)\<lparr>memoryUsage := memoryUsage (stats c3) + int sz\<rparr>\<rparr>;
               c5 = updateAccessTime c4 duration;
               c6 = c5\<lparr>sse := sse c5 @ [CacheSet key v]\<rparr>
           in Inr c6))"

text \<open>
  \<open>get\<close> returns \<open>undefined\<close> (\<open>None\<close>) or the stored value. \<open>tCheck\<close> is the reading of
  \<open>Date.now()\<close> inside \<open>isExpired\<close>, \<open>tAccess\<close> the one stored in \<open>lastAccessed\<close>;
  \<open>duration\<close> is \<open>endTime - startTime\<close>, which only the last path computes.
\<close>

definition get ::
  "'v cacheManager \<Rightarrow> string \<Rightarrow> int \<Rightarrow> int \<Rightarrow> real \<Rightarrow> 'v option \<times> 'v cacheManager" where
  "get c key tCheck tAccess duration =
     (case map_of (cache c) key of
        None \<Rightarrow>
          (let c1 = c\<lparr>stats := (stats c)\<lparr>misses := misses (stats c) + 1\<rparr>\<rparr>
           in (None, updateHitRate c1))
      | Some entry \<Rightarrow>
          (if isExpired c tCheck entry
           then (let c1 = snd (delete c key);
                     c2 = c1\<lparr>stats := (stats c1)\<lparr>misses := misses (stats c1) + 1\<rparr>\<rparr>
                 in (None, updateHitRate c2))
           else (let c1 = c\<lparr>cache := AList.update key (entry\<lparr>lastAccessed := tAccess\<rparr>) (cache c)\<rparr>;
                     c2 = c1\<lparr>stats := (stats c1)\<lparr>hits := hits (stats c1) + 1\<rparr>\<rparr>;
                     c3 = updateHitRate c2;
                     c4 = updateAccessTime c3 duration
                 in (Some (value_e entry), c4))))"

definition clear :: "'v cacheManager \<Rightarrow> 'v cacheManager" where
  "clear c = resetStats (c\<lparr>cache := []\<rparr>)"

definition getStats :: "'v cacheManager \<Rightarrow> cacheStats" where
  "getStats c = stats c"

section \<open>Concrete values for the examples\<close>

text \<open>
  Five kinds of JavaScript value on which \<open>JSON.stringify\<close> is known exactly:
  \<open>undefined\<close> gives \<open>undefined\<close>, \<open>null\<close> gives \<open>"null"\<close>, a boolean gives \<open>"true"\<close> or
  \<open>"false"\<close>, a BigInt makes it throw a \<open>TypeError\<close>, and an object whose \<open>toJSON\<close>
  method throws makes it throw what the method throws.
\<close>

datatype jsAtom = JsUndefined | JsNull | JsBool bool | JsBigInt int | JsToJSONThrows error

fun JSON_stringify :: "jsAtom \<Rightarrow> jsonResult" where
  "JSON_stringify JsUndefined = JsonUndefined"
| "JSON_stringify JsNull = JsonString ''null''"
| "JSON_stringify (JsBool b) = JsonString (if b then ''true'' else ''false'')"
| "JSON_stringify (JsBigInt n) = JsonThrows TypeError"
| "JSON_stringify (JsToJSONThrows e) = JsonThrows e"

definition noConfig :: cacheConfig where
  "noConfig = \<lparr>maxEntries_opt = None, maxMemory_opt = None, defaultTTL_opt = None,
               checkInterval_opt = None, statsInterval_opt = None\<rparr>"

section \<open>Notions used to state the properties\<close>

text \<open>
  \<open>fits c requiredSize\<close> is the negation of the first conjunct of the loop condition of
  \<open>enforceMemoryLimit\<close>. \<open>removeKeys\<close> calls \<open>delete\<close> for each key of a list in turn.
  \<open>liveMemory\<close> is the sum of \<open>size\<close> over the entries of the map, and a state is
  \<open>accurate\<close> when its keys are distinct (as in every \<open>Map\<close>) and \<open>memoryUsage\<close> is that sum.
  \<open>put_all\<close> calls \<open>set\<close> for each element of a list, without a TTL, with one clock reading
  per call and a measured duration of zero, and stops at the first exception.
\<close>

definition fits :: "'v cacheManager \<Rightarrow> nat \<Rightarrow> bool" where
  "fits c requiredSize \<longleftrightarrow> memoryUsage (stats c) + int requiredSize \<le> maxMemory (config c)"

definition removeKeys :: "'v cacheManager \<Rightarrow> string list \<Rightarrow> 'v cacheManager" where
  "removeKeys c ks = foldl (\<lambda>s k. snd (delete s k)) c ks"

definition liveMemory :: "'v cacheManager \<Rightarrow> int" where
  "liveMemory c = (\<Sum>p\<leftarrow>cache c. int (size_e (snd p)))"

definition accurate :: "'v cacheManager \<Rightarrow> bool" where
  "accurate c \<longleftrightarrow> distinct (map fst (cache c)) \<and> memoryUsage (stats c) = liveMemory c"

fun put_all ::
  "('v \<Rightarrow> jsonResult) \<Rightarrow> 'v cacheManager \<Rightarrow> (string \<times> 'v \<times> int) list \<Rightarrow> error + 'v cacheManager" where
  "put_all stringify c [] = Inr c"
| "put_all stringify c ((key, v, now) # ps) =
     (case set_op stringify c key v None now now 0 of
        Inl e \<Rightarrow> Inl e
      | Inr c' \<Rightarrow> put_all stringify c' ps)"

section \<open>States of the examples\<close>

text \<open>
  \<open>fresh\<close> is the manager built with no configuration, \<open>small\<close> the one built with
  \<open>{maxMemory: 25}\<close>. \<open>lru_example\<close> holds three entries of 8 bytes inserted in the order
  C, B, A and then read in the order A, B, C at the times 1, 2, 3, under a ceiling of 30
  bytes. \<open>after_put_k\<close> is \<open>fresh\<close> after \<open>set("k", null, 1)\<close> at time 0, taking no
  measurable time. \<open>after_first_put\<close> is \<open>fresh\<close> after \<open>set("k", null)\<close> at time 0 taking
  1 ms, and \<open>after_second_put\<close> that state after \<open>set("j", null)\<close> at time 1 taking 1 ms.
\<close>

definition fresh :: "jsAtom cacheManager" where
  "fresh = new_CacheManager noConfig"

definition small :: "jsAtom cacheManager" where
  "small = new_CacheManager (noConfig\<lparr>maxMemory_opt := Some 25\<rparr>)"

definition lru_example :: "jsAtom cacheManager" where
  "lru_example =
     \<lparr>cache = [(''C'', \<lparr>value_e = JsNull, created = 0, lastAccessed = 3, ttl = Some 3600, size_e = 8\<rparr>),
               (''B'', \<lparr>value_e = JsNull, created = 0, lastAccessed = 2, ttl = Some 3600, size_e = 8\<rparr>),
               (''A'', \<lparr>value_e = JsNull, created = 0, lastAccessed = 1, ttl = Some 3600, size_e = 8\<rparr>)],
      stats = \<lparr>totalEntries = 3, memoryUsage = 24, hits = 3, misses = 0,
                hitRate = 100, avgAccessTime = Fin 0\<rparr>,
      config = \<lparr>maxEntries = 1000, maxMemory = 30, defaultTTL = 3600,
                 checkInterval = 60000, statsInterval = 30000\<rparr>,
      sse = []\<rparr>"

definition after_put_k :: "jsAtom cacheManager" where
  "after_put_k =
     fresh\<lparr>cache := [(''k'', \<lparr>value_e = JsNull, created = 0, lastAccessed = 0,
                                ttl = Some 1, size_e = 8\<rparr>)],
           stats := \<lparr>totalEntries = 1, memoryUsage = 8, hits = 0, misses = 0,
                     hitRate = 0, avgAccessTime = NaN\<rparr>,
           sse := [CacheSet ''k'' JsNull]\<rparr>"

definition after_first_put :: "jsAtom cacheManager" where
  "after_first_put =
     fresh\<lparr>cache := [(''k'', \<lparr>value_e = JsNull, created = 0, lastAccessed = 0,
                                ttl = Some 3600, size_e = 8\<rparr>)],
           stats := \<lparr>totalEntries = 1, memoryUsage = 8, hits = 0, misses = 0,
                     hitRate = 0, avgAccessTime = PInf\<rparr>,
           sse := [CacheSet ''k'' JsNull]\<rparr>"

definition after_second_put :: "jsAtom cacheManager" where
  "after_second_put =
     fresh\<lparr>cache := [(''k'', \<lparr>value_e = JsNull, created = 0, lastAccessed = 0,
                                ttl = Some 3600, size_e = 8\<rparr>),
                       (''j'', \<lparr>value_e = JsNull, created = 1, lastAccessed = 1,
                                ttl = Some 3600, size_e = 8\<rparr>)],
           stats := \<lparr>totalEntries = 2, memoryUsage = 16, hits = 0, misses = 0,
                     hitRate = 0, avgAccessTime = NInf\<rparr>,
           sse := [CacheSet ''k'' JsNull, CacheSet ''j'' JsNull]\<rparr>"

section \<open>clear\<close>

text \<open>
  C9. After \<open>clear()\<close> the cache holds no entries and \<open>getStats()\<close> returns zero in every
  field: \<open>totalEntries\<close>, \<open>memoryUsage\<close>, \<open>hits\<close>, \<open>misses\<close>, \<open>hitRate\<close> and
  \<open>avgAccessTime\<close>, whatever the state before. No notification is sent.
\<close>

theorem clear_resets_everything:
  "cache (clear c) = []
   \<and> getStats (clear c) = \<lparr>totalEntries = 0, memoryUsage = 0, hits = 0, misses = 0,
                            hitRate = 0, avgAccessTime = Fin 0\<rparr>
   \<and> sse (clear c) = sse c"
  by (simp add: clear_def resetStats_def getStats_def)

section \<open>delete\<close>

lemma delete_absent: "map_of (cache c) key = None \<Longrightarrow> delete c key = (False, c)"
  by (simp add: delete_def)

lemma delete_present:
  "map_of (cache c) key = Some entry \<Longrightarrow>
   delete c key =
     (True, c\<lparr>cache := AList.delete key (cache c),
              stats := (stats c)\<lparr>totalEntries := length (AList.delete key (cache c)),
                                 memoryUsage := memoryUsage (stats c) - int (size_e entry)\<rparr>,
              sse := sse c @ [CacheDelete key]\<rparr>)"
  by (simp add: delete_def Let_def)

lemma config_delete [simp]: "config (snd (delete c key)) = config c"
  by (simp add: delete_def Let_def split: option.split)

lemma counters_delete [simp]:
  "hits (stats (snd (delete c key))) = hits (stats c)"
  "misses (stats (snd (delete c key))) = misses (stats c)"
  "hitRate (stats (snd (delete c key))) = hitRate (stats c)"
  "avgAccessTime (stats (snd (delete c key))) = avgAccessTime (stats c)"
  by (simp_all add: delete_def Let_def split: option.split)

lemma cache_delete [simp]: "cache (snd (delete c key)) = AList.delete key (cache c)"
  by (auto simp add: delete_def Let_def map_of_eq_None_iff split: option.split)

text \<open>
  C8. \<open>delete(key)\<close> on a key of the map subtracts the size of its entry from
  \<open>memoryUsage\<close>, removes the entry, sets \<open>totalEntries\<close> to the new size of the map, sends
  a \<open>'cache-delete'\<close> event for the key and returns \<open>true\<close>. On a key that is not in the
  map it returns \<open>false\<close> and the whole state (map, statistics, events) is as before.
\<close>

theorem delete_semantics:
  "(map_of (cache c) key = Some entry \<longrightarrow>
      delete c key =
        (True, c\<lparr>cache := AList.delete key (cache c),
                 stats := (stats c)\<lparr>totalEntries := length (AList.delete key (cache c)),
                                    memoryUsage := memoryUsage (stats c) - int (size_e entry)\<rparr>,
                 sse := sse c @ [CacheDelete key]\<rparr>)
      \<and> map_of (AList.delete key (cache c)) key = None)
   \<and> (map_of (cache c) key = None \<longrightarrow> delete c key = (False, c))"
  by (simp add: delete_def Let_def AList.delete_conv')

text \<open>
  The two cases at \<open>after_put_k\<close>: \<open>"k"\<close> is stored with 8 bytes, \<open>"z"\<close> is not stored.
\<close>

theorem delete_semantics_witness:
  "map_of (cache after_put_k) ''k''
     = Some \<lparr>value_e = JsNull, created = 0, lastAccessed = 0, ttl = Some 1, size_e = 8\<rparr>
   \<and> delete after_put_k ''k''
     = (True, after_put_k\<lparr>cache := [],
                stats := (stats after_put_k)\<lparr>totalEntries := 0, memoryUsage := 0\<rparr>,
                sse := [CacheSet ''k'' JsNull, CacheDelete ''k'']\<rparr>)
   \<and> map_of (cache after_put_k) ''z'' = None
   \<and> delete after_put_k ''z'' = (False, after_put_k)"
  using delete_semantics[of after_put_k "''k''"
          "\<lparr>value_e = JsNull, created = 0, lastAccessed = 0, ttl = Some 1, size_e = 8\<rparr>"]
        delete_semantics[of after_put_k "''z''"]
  by (simp add: after_put_k_def fresh_def new_CacheManager_def noConfig_def)

section \<open>Eviction under memory pressure\<close>

lemma removeKeys_Nil [simp]: "removeKeys c [] = c"
  by (simp add: removeKeys_def)

lemma removeKeys_Cons [simp]: "removeKeys c (k # ks) = removeKeys (snd (delete c k)) ks"
  by (simp add: removeKeys_def)

lemma config_removeKeys [simp]: "config (removeKeys c ks) = config c"
  by (induction ks arbitrary: c) simp_all

lemma counters_removeKeys [simp]:
  "hits (stats (removeKeys c ks)) = hits (stats c)"
  "misses (stats (removeKeys c ks)) = misses (stats c)"
  "hitRate (stats (removeKeys c ks)) = hitRate (stats c)"
  "avgAccessTime (stats (removeKeys c ks)) = avgAccessTime (stats c)"
  by (induction ks arbitrary: c) simp_all

lemma cache_removeKeys: "cache (removeKeys c ks) = filter (\<lambda>p. fst p \<notin> set ks) (cache c)"
proof (induction ks arbitrary: c)
  case Nil
  show ?case by simp
next
  case (Cons k ks)
  have "AList.delete k (cache c) = filter (\<lambda>p. fst p \<noteq> k) (cache c)"
    by (simp add: AList.delete_eq case_prod_unfold eq_commute)
  with Cons show ?case
    by (simp add: conj_commute)
qed

text \<open>
  The loop removes a prefix of its list: the shortest one after which the new entry fits,
  or the whole list.
\<close>

lemma loop_prefix:
  "\<exists>n\<le>length es.
      enforceMemoryLimit_loop req es c = removeKeys c (map fst (take n es))
    \<and> (\<forall>m<n. \<not> fits (removeKeys c (map fst (take m es))) req)
    \<and> (fits (enforceMemoryLimit_loop req es c) req \<or> n = length es)"
proof (induction es arbitrary: c)
  case Nil
  show ?case by simp
next
  case (Cons p es)
  show ?case
  proof (cases "fits c req")
    case True
    then have "enforceMemoryLimit_loop req (p # es) c = c"
      by (simp add: fits_def)
    with True show ?thesis
      by (intro exI[of _ 0]) simp
  next
    case False
    let ?c1 = "snd (delete c (fst p))"
    from False have step: "enforceMemoryLimit_loop req (p # es) c = enforceMemoryLimit_loop req es ?c1"
      by (simp add: fits_def)
    from Cons.IH[of ?c1] obtain n where n: "n \<le> length es"
      "enforceMemoryLimit_loop req es ?c1 = removeKeys ?c1 (map fst (take n es))"
      "\<forall>m<n. \<not> fits (removeKeys ?c1 (map fst (take m es))) req"
      "fits (enforceMemoryLimit_loop req es ?c1) req \<or> n = length es"
      by blast
    have "\<forall>m<Suc n. \<not> fits (removeKeys c (map fst (take m (p # es)))) req"
    proof (intro allI impI)
      fix m assume "m < Suc n"
      show "\<not> fits (removeKeys c (map fst (take m (p # es)))) req"
      proof (cases m)
        case 0
        with False show ?thesis by simp
      next
        case (Suc m')
        with \<open>m < Suc n\<close> n(3) show ?thesis by simp
      qed
    qed
    with n step show ?thesis
      by (intro exI[of _ "Suc n"]) auto
  qed
qed

text \<open>
  What removing a list of stored entries does to the events and the statistics.
\<close>

lemma removeKeys_victims:
  "distinct (map fst (cache c)) \<Longrightarrow> set vs \<subseteq> set (cache c) \<Longrightarrow> distinct (map fst vs) \<Longrightarrow>
     sse (removeKeys c (map fst vs)) = sse c @ map (\<lambda>p. CacheDelete (fst p)) vs
   \<and> memoryUsage (stats (removeKeys c (map fst vs)))
       = memoryUsage (stats c) - (\<Sum>p\<leftarrow>vs. int (size_e (snd p)))
   \<and> (vs \<noteq> [] \<longrightarrow> totalEntries (stats (removeKeys c (map fst vs)))
                      = length (cache (removeKeys c (map fst vs))))"
proof (induction vs arbitrary: c)
  case Nil
  show ?case by simp
next
  case (Cons p vs)
  obtain k e where p: "p = (k, e)" by (cases p)
  let ?c1 = "snd (delete c k)"
  from Cons.prems p have look: "map_of (cache c) k = Some e"
    by simp
  have c1: "?c1 = c\<lparr>cache := AList.delete k (cache c),
              stats := (stats c)\<lparr>totalEntries := length (AList.delete k (cache c)),
                                 memoryUsage := memoryUsage (stats c) - int (size_e e)\<rparr>,
              sse := sse c @ [CacheDelete k]\<rparr>"
    by (simp add: delete_present[OF look])
  have d1: "distinct (map fst (cache ?c1))"
    using Cons.prems(1) by (simp add: distinct_delete)
  have s1: "set vs \<subseteq> set (cache ?c1)"
    using Cons.prems p by (auto simp: AList.delete_eq rev_image_eqI)
  have dv: "distinct (map fst vs)"
    using Cons.prems by simp
  note IH = Cons.IH[OF d1 s1 dv]
  have tot: "totalEntries (stats (removeKeys ?c1 (map fst vs))) = length (cache (removeKeys ?c1 (map fst vs)))"
  proof (cases vs)
    case Nil
    then show ?thesis by (simp add: c1)
  next
    case (Cons a list)
    with IH show ?thesis by simp
  qed
  from IH tot show ?case
    by (simp add: p c1)
qed

lemma enforceMemoryLimit_effect:
  assumes dist: "distinct (map fst (cache c))"
  shows "\<exists>n\<le>length (cache c).
     (let byAccess = sort_key (\<lambda>p. lastAccessed (snd p)) (cache c);
          victims = take n byAccess;
          c' = enforceMemoryLimit c req
      in c' = removeKeys c (map fst victims)
       \<and> (\<forall>m<n. \<not> fits (removeKeys c (map fst (take m byAccess))) req)
       \<and> (fits c' req \<or> n = length (cache c))
       \<and> cache c' = filter (\<lambda>p. p \<notin> set victims) (cache c)
       \<and> sse c' = sse c @ map (\<lambda>p. CacheDelete (fst p)) victims
       \<and> memoryUsage (stats c') = memoryUsage (stats c) - (\<Sum>p\<leftarrow>victims. int (size_e (snd p)))
       \<and> (0 < n \<longrightarrow> totalEntries (stats c') = length (cache c'))
       \<and> (\<forall>p\<in>set victims. \<forall>q\<in>set (cache c'). lastAccessed (snd p) \<le> lastAccessed (snd q)))"
proof -
  let ?f = "\<lambda>p::string \<times> 'a cacheEntry. lastAccessed (snd p)"
  let ?es = "sort_key ?f (cache c)"
  from loop_prefix[of ?es req c] obtain n where n: "n \<le> length (cache c)"
    "enforceMemoryLimit c req = removeKeys c (map fst (take n ?es))"
    "\<forall>m<n. \<not> fits (removeKeys c (map fst (take m ?es))) req"
    "fits (enforceMemoryLimit c req) req \<or> n = length (cache c)"
    by (auto simp: enforceMemoryLimit_def)
  let ?vs = "take n ?es"
  have inj: "inj_on fst (set (cache c))" and dc: "distinct (cache c)"
    using dist by (simp_all add: distinct_map)
  have sub: "set ?vs \<subseteq> set (cache c)"
    using set_take_subset[of n ?es] by simp
  have "distinct (map fst ?es)"
    using inj dc by (simp add: distinct_map)
  then have dv: "distinct (map fst ?vs)"
    by (simp add: take_map[symmetric] distinct_take del: take_map)
  note eff = removeKeys_victims[OF dist sub dv]
  have cache': "cache (enforceMemoryLimit c req) = filter (\<lambda>p. p \<notin> set ?vs) (cache c)"
  proof -
    have "filter (\<lambda>p. fst p \<notin> set (map fst ?vs)) (cache c) = filter (\<lambda>p. p \<notin> set ?vs) (cache c)"
    proof (rule filter_cong[OF refl])
      fix p assume pin: "p \<in> set (cache c)"
      show "(fst p \<notin> set (map fst ?vs)) = (p \<notin> set ?vs)"
      proof -
        have "fst p \<in> fst ` set ?vs \<longleftrightarrow> p \<in> set ?vs"
        proof
          assume "fst p \<in> fst ` set ?vs"
          then obtain q where q: "q \<in> set ?vs" "fst q = fst p" by auto
          with sub have "q \<in> set (cache c)" by blast
          with inj pin q(2) have "q = p" by (auto dest: inj_onD)
          with q(1) show "p \<in> set ?vs" by simp
        next
          assume "p \<in> set ?vs" then show "fst p \<in> fst ` set ?vs" by simp
        qed
        then show ?thesis by simp
      qed
    qed
    then show ?thesis by (simp add: n(2) cache_removeKeys)
  qed
  have ord: "\<forall>p\<in>set ?vs. \<forall>q\<in>set (cache (enforceMemoryLimit c req)). ?f p \<le> ?f q"
  proof (intro ballI)
    fix p q assume p: "p \<in> set ?vs" and q: "q \<in> set (cache (enforceMemoryLimit c req))"
    from q cache' have "q \<in> set (cache c)" "q \<notin> set ?vs" by auto
    moreover have "set (cache c) = set ?vs \<union> set (drop n ?es)"
      using set_append[of ?vs "drop n ?es"] by simp
    ultimately have qd: "q \<in> set (drop n ?es)" by blast
    have "sorted (map ?f (?vs @ drop n ?es))" by simp
    then have "\<forall>x\<in>set ?vs. \<forall>y\<in>set (drop n ?es). ?f x \<le> ?f y"
      unfolding map_append sorted_append by auto
    with p qd show "?f p \<le> ?f q" by blast
  qed
  have tot: "0 < n \<longrightarrow> totalEntries (stats (enforceMemoryLimit c req)) = length (cache (enforceMemoryLimit c req))"
  proof
    assume "0 < n"
    moreover from n(4) n(1) have "n \<le> length ?es" by simp
    ultimately have "?vs \<noteq> []" using n(1) by (cases ?es) auto
    with eff show "totalEntries (stats (enforceMemoryLimit c req)) = length (cache (enforceMemoryLimit c req))"
      by (simp add: n(2))
  qed
  from n eff cache' ord tot show ?thesis
    by (intro exI[of _ n]) (simp add: Let_def)
qed

lemma enforceMemoryLimit_removeKeys:
  "\<exists>ks. enforceMemoryLimit c req = removeKeys c ks"
  using loop_prefix[of "sort_key (\<lambda>p. lastAccessed (snd p)) (cache c)" req c]
  by (auto simp: enforceMemoryLimit_def)

lemma config_enforceMemoryLimit [simp]: "config (enforceMemoryLimit c req) = config c"
  using enforceMemoryLimit_removeKeys[of c req] by auto

lemma counters_enforceMemoryLimit [simp]:
  "hits (stats (enforceMemoryLimit c req)) = hits (stats c)"
  "misses (stats (enforceMemoryLimit c req)) = misses (stats c)"
  "hitRate (stats (enforceMemoryLimit c req)) = hitRate (stats c)"
  "avgAccessTime (stats (enforceMemoryLimit c req)) = avgAccessTime (stats c)"
  using enforceMemoryLimit_removeKeys[of c req] by auto

subsection \<open>The effect of set\<close>

lemma set_op_effect:
  assumes "calculateSize stringify v = Inr sz"
  shows "\<exists>c'. set_op stringify c key v ttl_arg tCreated tAccessed d = Inr c'
     \<and> (let c1 = (if fits c sz then c else enforceMemoryLimit c sz)
        in cache c' = AList.update key
                        \<lparr>value_e = v, created = tCreated, lastAccessed = tAccessed,
                         ttl = Some (case ttl_arg of Some t \<Rightarrow> t | None \<Rightarrow> defaultTTL (config c)),
                         size_e = sz\<rparr> (cache c1)
         \<and> totalEntries (stats c') = length (cache c')
         \<and> memoryUsage (stats c') = memoryUsage (stats c1) + int sz
         \<and> hits (stats c') = hits (stats c)
         \<and> misses (stats c') = misses (stats c)
         \<and> hitRate (stats c') = hitRate (stats c)
         \<and> avgAccessTime (stats c') =
             js_div (js_add (js_mul (avgAccessTime (stats c))
                                    (Fin (real_of_int (int (hits (stats c) + misses (stats c)) - 1))))
                            (Fin d))
                    (Fin (real (hits (stats c) + misses (stats c))))
         \<and> config c' = config c
         \<and> sse c' = sse c1 @ [CacheSet key v])"
  using assms by (simp add: set_op_def Let_def updateAccessTime_def fits_def split: option.split)

lemma sorted_by_access:
  "sorted (map (\<lambda>p. lastAccessed (snd p)) (sort_key (\<lambda>p. lastAccessed (snd p)) xs))"
  by simp

text \<open>
  C3. When \<open>memoryUsage + size\<close> of a put exceeds \<open>maxMemory\<close>, the put removes the first
  \<open>n\<close> entries of the map sorted by ascending \<open>lastAccessed\<close>, entries with equal
  \<open>lastAccessed\<close> staying in insertion order. Each removal is a \<open>delete\<close> with its event; no
  shorter prefix makes the new entry fit, and after the \<open>n\<close> removals it fits or no entry
  is left. Every removed entry was accessed no later than every entry that stays. The new
  entry is then stored. With A, B, C accessed at 1, 2, 3 and a put that needs one eviction,
  A is removed and B and C stay, as the example after the theorem computes.
\<close>

theorem put_evicts_least_recently_accessed:
  assumes "distinct (map fst (cache c))"
      and "calculateSize stringify v = Inr sz"
      and "memoryUsage (stats c) + int sz > maxMemory (config c)"
  shows "\<exists>n\<le>length (cache c). \<exists>c'.
     (let byAccess = sort_key (\<lambda>p. lastAccessed (snd p)) (cache c);
          victims = take n byAccess;
          evicted = removeKeys c (map fst victims)
      in set_op stringify c key v ttl_arg tCreated tAccessed d = Inr c'
       \<and> sorted (map (\<lambda>p. lastAccessed (snd p)) byAccess)
       \<and> (\<forall>t. filter (\<lambda>p. lastAccessed (snd p) = t) byAccess
                = filter (\<lambda>p. lastAccessed (snd p) = t) (cache c))
       \<and> enforceMemoryLimit c sz = evicted
       \<and> (\<forall>m<n. \<not> fits (removeKeys c (map fst (take m byAccess))) sz)
       \<and> (fits evicted sz \<or> n = length (cache c))
       \<and> (\<forall>p\<in>set victims. \<forall>q\<in>set (cache evicted).
             lastAccessed (snd p) \<le> lastAccessed (snd q))
       \<and> cache evicted = filter (\<lambda>p. p \<notin> set victims) (cache c)
       \<and> cache c' = AList.update key
                       \<lparr>value_e = v, created = tCreated, lastAccessed = tAccessed,
                        ttl = Some (case ttl_arg of Some t \<Rightarrow> t | None \<Rightarrow> defaultTTL (config c)),
                        size_e = sz\<rparr>
                       (filter (\<lambda>p. p \<notin> set victims) (cache c))
       \<and> sse c' = sse c @ map (\<lambda>p. CacheDelete (fst p)) victims @ [CacheSet key v]
       \<and> memoryUsage (stats c')
           = memoryUsage (stats c) - (\<Sum>p\<leftarrow>victims. int (size_e (snd p))) + int sz)"
proof -
  let ?f = "\<lambda>p::string \<times> 'a cacheEntry. lastAccessed (snd p)"
  let ?es = "sort_key ?f (cache c)"
  from enforceMemoryLimit_effect[OF assms(1), of sz] obtain n where n: "n \<le> length (cache c)"
    and e1: "enforceMemoryLimit c sz = removeKeys c (map fst (take n ?es))"
    and e2: "\<forall>m<n. \<not> fits (removeKeys c (map fst (take m ?es))) sz"
    and e3: "fits (enforceMemoryLimit c sz) sz \<or> n = length (cache c)"
    and e4: "cache (enforceMemoryLimit c sz) = filter (\<lambda>p. p \<notin> set (take n ?es)) (cache c)"
    and e5: "sse (enforceMemoryLimit c sz) = sse c @ map (\<lambda>p. CacheDelete (fst p)) (take n ?es)"
    and e6: "memoryUsage (stats (enforceMemoryLimit c sz))
               = memoryUsage (stats c) - (\<Sum>p\<leftarrow>take n ?es. int (size_e (snd p)))"
    and e7: "\<forall>p\<in>set (take n ?es). \<forall>q\<in>set (cache (enforceMemoryLimit c sz)). ?f p \<le> ?f q"
    unfolding Let_def by blast
  from assms(3) have nf: "\<not> fits c sz"
    by (simp add: fits_def)
  from set_op_effect[OF assms(2), of c key ttl_arg tCreated tAccessed d] nf
  obtain c' where c': "set_op stringify c key v ttl_arg tCreated tAccessed d = Inr c'"
    and s1: "cache c' = AList.update key
                        \<lparr>value_e = v, created = tCreated, lastAccessed = tAccessed,
                         ttl = Some (case ttl_arg of Some t \<Rightarrow> t | None \<Rightarrow> defaultTTL (config c)),
                         size_e = sz\<rparr> (cache (enforceMemoryLimit c sz))"
    and s2: "memoryUsage (stats c') = memoryUsage (stats (enforceMemoryLimit c sz)) + int sz"
    and s3: "sse c' = sse (enforceMemoryLimit c sz) @ [CacheSet key v]"
    unfolding Let_def by auto
  have stable: "\<forall>t. filter (\<lambda>p. ?f p = t) ?es = filter (\<lambda>p. ?f p = t) (cache c)"
    by (simp add: sort_key_stable)
  have srt: "sorted (map ?f ?es)"
    by (rule sorted_by_access)
  show ?thesis
    unfolding Let_def
    apply (rule exI[of _ n], rule conjI[OF n], rule exI[of _ c'])
    using c' srt stable e1 e2 e3 e4 e5 e6 e7 s1 s2 s3
    apply (simp only: e1[symmetric])
    apply simp
    done
qed

text \<open>
  The example: \<open>set("D", null)\<close> at time 4 on \<open>lru_example\<close>, where 24 + 8 exceeds 30.
  The entry A, inserted last but accessed first, is the one removed.
\<close>

theorem put_evicts_least_recently_accessed_witness:
  "distinct (map fst (cache lru_example))
   \<and> calculateSize JSON_stringify JsNull = Inr 8
   \<and> memoryUsage (stats lru_example) + int 8 > maxMemory (config lru_example)
   \<and> set_op JSON_stringify lru_example ''D'' JsNull None 4 4 0 =
       Inr (lru_example
             \<lparr>cache := [(''C'', \<lparr>value_e = JsNull, created = 0, lastAccessed = 3,
                                     ttl = Some 3600, size_e = 8\<rparr>),
                         (''B'', \<lparr>value_e = JsNull, created = 0, lastAccessed = 2,
                                     ttl = Some 3600, size_e = 8\<rparr>),
                         (''D'', \<lparr>value_e = JsNull, created = 4, lastAccessed = 4,
                                     ttl = Some 3600, size_e = 8\<rparr>)],
              sse := [CacheDelete ''A'', CacheSet ''D'' JsNull]\<rparr>)"
proof -
  have h1: "distinct (map fst (cache lru_example))"
    by (simp add: lru_example_def)
  have h2: "calculateSize JSON_stringify JsNull = Inr 8"
    by (simp add: calculateSize_def)
  have h3: "memoryUsage (stats lru_example) + int 8 > maxMemory (config lru_example)"
    by (simp add: lru_example_def)
  have e: "set_op JSON_stringify lru_example ''D'' JsNull None 4 4 0 =
       Inr (lru_example
             \<lparr>cache := [(''C'', \<lparr>value_e = JsNull, created = 0, lastAccessed = 3,
                                     ttl = Some 3600, size_e = 8\<rparr>),
                         (''B'', \<lparr>value_e = JsNull, created = 0, lastAccessed = 2,
                                     ttl = Some 3600, size_e = 8\<rparr>),
                         (''D'', \<lparr>value_e = JsNull, created = 4, lastAccessed = 4,
                                     ttl = Some 3600, size_e = 8\<rparr>)],
              sse := [CacheDelete ''A'', CacheSet ''D'' JsNull]\<rparr>)"
    by (simp add: set_op_def calculateSize_def enforceMemoryLimit_def delete_def
          updateAccessTime_def lru_example_def Let_def)
  from put_evicts_least_recently_accessed[OF h1 h2 h3, of "''D''" None 4 4 0]
  have "\<exists>c'. set_op JSON_stringify lru_example ''D'' JsNull None 4 4 0 = Inr c'"
    unfolding Let_def by blast
  with e h1 h2 h3 show ?thesis
    by blast
qed

section \<open>Accounting of memoryUsage\<close>

text \<open>
  \<open>delete\<close> and the eviction keep \<open>memoryUsage\<close> equal to the sum of the live sizes, and
  so does a \<open>set\<close> of a key that is not stored. After a \<open>set\<close> on an accurate state
  \<open>memoryUsage\<close> is within \<open>maxMemory\<close> unless the new entry alone exceeds it.
\<close>

lemma sum_sizes_delete:
  "distinct (map fst xs) \<Longrightarrow> map_of xs k = Some e \<Longrightarrow>
   (\<Sum>p\<leftarrow>AList.delete k xs. int (size_e (snd p))) = (\<Sum>p\<leftarrow>xs. int (size_e (snd p))) - int (size_e e)"
proof (induction xs)
  case Nil
  then show ?case by simp
next
  case (Cons p xs)
  obtain k' e' where p: "p = (k', e')" by (cases p)
  show ?case
  proof (cases "k' = k")
    case True
    with Cons.prems p have "e' = e" and "k \<notin> fst ` set xs" by auto
    then show ?thesis using True p by simp
  next
    case False
    with Cons p show ?thesis by simp
  qed
qed

lemma sum_sizes_update_fresh:
  "k \<notin> fst ` set xs \<Longrightarrow>
   (\<Sum>p\<leftarrow>AList.update k e xs. int (size_e (snd p))) = (\<Sum>p\<leftarrow>xs. int (size_e (snd p))) + int (size_e e)"
  by (induction xs) auto

lemma accurate_delete: "accurate c \<Longrightarrow> accurate (snd (delete c k))"
proof (cases "map_of (cache c) k")
  case None
  assume "accurate c"
  with None show ?thesis by (simp add: delete_absent)
next
  case (Some e)
  assume "accurate c"
  with Some sum_sizes_delete[of "cache c" k e] show ?thesis
    by (simp add: delete_present accurate_def liveMemory_def distinct_delete)
qed

lemma accurate_removeKeys: "accurate c \<Longrightarrow> accurate (removeKeys c ks)"
  by (induction ks arbitrary: c) (simp_all add: accurate_delete)

lemma accurate_enforceMemoryLimit: "accurate c \<Longrightarrow> accurate (enforceMemoryLimit c req)"
  using enforceMemoryLimit_removeKeys[of c req] by (auto simp: accurate_removeKeys)

lemma keys_enforceMemoryLimit: "fst ` set (cache (enforceMemoryLimit c req)) \<subseteq> fst ` set (cache c)"
  using enforceMemoryLimit_removeKeys[of c req] by (auto simp: cache_removeKeys)

lemma set_op_fresh_key_accurate:
  assumes "accurate c" and "key \<notin> fst ` set (cache c)"
      and "set_op stringify c key v ttl_arg tCreated tAccessed d = Inr c'"
  shows "accurate c' \<and> totalEntries (stats c') = length (cache c')
       \<and> fst ` set (cache c') \<subseteq> insert key (fst ` set (cache c))"
proof -
  from assms(3) obtain sz where sz: "calculateSize stringify v = Inr sz"
    by (auto simp: set_op_def split: sum.splits)
  let ?c1 = "if fits c sz then c else enforceMemoryLimit c sz"
  let ?e = "\<lparr>value_e = v, created = tCreated, lastAccessed = tAccessed,
             ttl = Some (case ttl_arg of Some t \<Rightarrow> t | None \<Rightarrow> defaultTTL (config c)),
             size_e = sz\<rparr>"
  have a1: "accurate ?c1"
    using assms(1) by (simp add: accurate_enforceMemoryLimit)
  have k1: "fst ` set (cache ?c1) \<subseteq> fst ` set (cache c)"
    using keys_enforceMemoryLimit[of c sz] by simp
  with assms(2) have f1: "key \<notin> fst ` set (cache ?c1)"
    by blast
  from set_op_effect[OF sz, of c key ttl_arg tCreated tAccessed d] assms(3)
  have c': "cache c' = AList.update key ?e (cache ?c1)"
    "totalEntries (stats c') = length (cache c')"
    "memoryUsage (stats c') = memoryUsage (stats ?c1) + int sz"
    by (simp_all add: Let_def)
  have "distinct (map fst (cache c'))"
    using a1 by (simp add: c'(1) accurate_def distinct_update)
  moreover have "memoryUsage (stats c') = liveMemory c'"
    using a1 sum_sizes_update_fresh[OF f1, of ?e]
    by (simp add: c' accurate_def liveMemory_def)
  moreover have "fst ` set (cache c') \<subseteq> insert key (fst ` set (cache c))"
  proof -
    have "fst ` set (cache c') = insert key (fst ` set (cache ?c1))"
      by (simp add: c'(1) dom_update)
    with k1 show ?thesis by blast
  qed
  ultimately show ?thesis
    using c'(2) by (simp add: accurate_def)
qed

lemma set_op_respects_ceiling:
  assumes "accurate c" and "calculateSize stringify v = Inr sz"
      and "set_op stringify c key v ttl_arg tCreated tAccessed d = Inr c'"
  shows "memoryUsage (stats c') \<le> maxMemory (config c') \<or> maxMemory (config c') < int sz"
proof (cases "fits c sz")
  case True
  with set_op_effect[OF assms(2), of c key ttl_arg tCreated tAccessed d] assms(3)
  show ?thesis by (auto simp: Let_def fits_def)
next
  case False
  let ?c1 = "enforceMemoryLimit c sz"
  from set_op_effect[OF assms(2), of c key ttl_arg tCreated tAccessed d] assms(3) False
  have c': "memoryUsage (stats c') = memoryUsage (stats ?c1) + int sz" "config c' = config c"
    by (auto simp: Let_def)
  from assms(1) have dist: "distinct (map fst (cache c))"
    by (simp add: accurate_def)
  from enforceMemoryLimit_effect[OF dist, of sz] obtain n where n: "n \<le> length (cache c)"
    "fits ?c1 sz \<or> n = length (cache c)"
    "cache ?c1 = filter (\<lambda>p. p \<notin> set (take n (sort_key (\<lambda>p. lastAccessed (snd p)) (cache c)))) (cache c)"
    unfolding Let_def by blast
  from n(2) show ?thesis
  proof
    assume "fits ?c1 sz"
    then show ?thesis by (simp add: c' fits_def)
  next
    assume "n = length (cache c)"
    with n(3) have "cache ?c1 = []" by simp
    moreover have "accurate ?c1"
      using assms(1) by (rule accurate_enforceMemoryLimit)
    ultimately have "memoryUsage (stats ?c1) = 0"
      by (simp add: accurate_def liveMemory_def)
    then have "memoryUsage (stats c') = int sz"
      by (simp add: c')
    then show ?thesis
      unfolding c'(2) by linarith
  qed
qed

lemma put_all_fresh_keys:
  "accurate c \<Longrightarrow> distinct (map fst ps) \<Longrightarrow> fst ` set ps \<inter> fst ` set (cache c) = {} \<Longrightarrow>
   put_all stringify c ps = Inr c' \<Longrightarrow>
   accurate c' \<and> (ps \<noteq> [] \<longrightarrow> totalEntries (stats c') = length (cache c')
       \<and> (memoryUsage (stats c') \<le> maxMemory (config c')
          \<or> (\<exists>sz. calculateSize stringify (fst (snd (last ps))) = Inr sz \<and> maxMemory (config c') < int sz)))"
proof (induction ps arbitrary: c)
  case Nil
  then show ?case by simp
next
  case (Cons p ps)
  obtain key v now where p: "p = (key, v, now)" by (cases p)
  from Cons.prems(4) p obtain c1 where c1: "set_op stringify c key v None now now 0 = Inr c1"
    and rest: "put_all stringify c1 ps = Inr c'"
    by (auto split: sum.splits)
  from Cons.prems(3) p have fr: "key \<notin> fst ` set (cache c)" by auto
  note s = set_op_fresh_key_accurate[OF Cons.prems(1) fr c1]
  from c1 obtain sz where sz: "calculateSize stringify v = Inr sz"
    by (auto simp: set_op_def split: sum.splits)
  note ceil = set_op_respects_ceiling[OF Cons.prems(1) sz c1]
  show ?case
  proof (cases "ps = []")
    case True
    with rest have "c' = c1" by simp
    with s ceil sz True p show ?thesis by auto
  next
    case False
    have d: "distinct (map fst ps)" using Cons.prems(2) by simp
    have k: "key \<notin> fst ` set ps" using Cons.prems(2) p by simp
    have i: "fst ` set ps \<inter> fst ` set (cache c) = {}" using Cons.prems(3) by auto
    from s have "fst ` set (cache c1) \<subseteq> insert key (fst ` set (cache c))" by simp
    with k i have "fst ` set ps \<inter> fst ` set (cache c1) = {}" by blast
    from Cons.IH[OF _ d this rest] s False show ?thesis by simp
  qed
qed

text \<open>
  C1. After every put and remove \<open>memoryUsage\<close> should be the sum of \<open>size\<close> over the
  live entries and \<open>totalEntries\<close> their number, the old size being subtracted when a put
  overwrites a key. \<open>set\<close> does not subtract it: two puts of \<open>null\<close> (8 bytes) under the
  same key leave one entry of 8 bytes, \<open>totalEntries = 1\<close> and \<open>memoryUsage = 16\<close>.
\<close>

theorem overwrite_overcounts_memory:
  "put_all JSON_stringify fresh [(''k'', JsNull, 0), (''k'', JsNull, 1)] =
     Inr (fresh\<lparr>cache := [(''k'', \<lparr>value_e = JsNull, created = 1, lastAccessed = 1,
                                   ttl = Some 3600, size_e = 8\<rparr>)],
                stats := \<lparr>totalEntries = 1, memoryUsage = 16, hits = 0, misses = 0,
                          hitRate = 0, avgAccessTime = NaN\<rparr>,
                sse := [CacheSet ''k'' JsNull, CacheSet ''k'' JsNull]\<rparr>)
   \<and> liveMemory (fresh\<lparr>cache := [(''k'', \<lparr>value_e = JsNull, created = 1, lastAccessed = 1,
                                   ttl = Some 3600, size_e = 8\<rparr>)]\<rparr>) = 8"
  by (simp add: set_op_def calculateSize_def updateAccessTime_def fresh_def liveMemory_def
        new_CacheManager_def noConfig_def Let_def)

text \<open>
  C2. After every put \<open>memoryUsage\<close> should be at most \<open>maxMemory\<close> unless the new entry
  alone exceeds it. With \<open>maxMemory = 25\<close>, three puts of \<open>null\<close> under one key count 24
  bytes for 8 live ones; a fourth put of \<open>false\<close> (10 bytes, below the ceiling) evicts the
  only entry, which gives back 8 bytes, and ends with \<open>memoryUsage = 26\<close>.
\<close>

theorem overwrite_breaks_memory_ceiling:
  "put_all JSON_stringify small
      [(''k'', JsNull, 0), (''k'', JsNull, 1), (''k'', JsNull, 2), (''k'', JsBool False, 3)] =
     Inr (small\<lparr>cache := [(''k'', \<lparr>value_e = JsBool False, created = 3, lastAccessed = 3,
                                   ttl = Some 3600, size_e = 10\<rparr>)],
                stats := \<lparr>totalEntries = 1, memoryUsage = 26, hits = 0, misses = 0,
                          hitRate = 0, avgAccessTime = NaN\<rparr>,
                sse := [CacheSet ''k'' JsNull, CacheSet ''k'' JsNull, CacheSet ''k'' JsNull,
                        CacheDelete ''k'', CacheSet ''k'' (JsBool False)]\<rparr>)
   \<and> maxMemory (config small) = 25
   \<and> calculateSize JSON_stringify (JsBool False) = Inr 10"
  by (simp add: set_op_def calculateSize_def updateAccessTime_def small_def
        enforceMemoryLimit_def delete_def new_CacheManager_def noConfig_def Let_def)

section \<open>get\<close>

lemma get_miss_effect:
  assumes "map_of (cache c) key = None
           \<or> (\<exists>entry. map_of (cache c) key = Some entry \<and> isExpired c tCheck entry)"
  shows "fst (get c key tCheck tAccess d) = None
       \<and> cache (snd (get c key tCheck tAccess d)) = AList.delete key (cache c)
       \<and> misses (stats (snd (get c key tCheck tAccess d))) = misses (stats c) + 1
       \<and> hits (stats (snd (get c key tCheck tAccess d))) = hits (stats c)
       \<and> hitRate (stats (snd (get c key tCheck tAccess d)))
           = real (hits (stats c)) / real (hits (stats c) + misses (stats c) + 1) * 100
       \<and> avgAccessTime (stats (snd (get c key tCheck tAccess d))) = avgAccessTime (stats c)"
  using assms
proof (elim disjE exE conjE)
  assume a: "map_of (cache c) key = None"
  then have "key \<notin> fst ` set (cache c)"
    by (simp add: map_of_eq_None_iff)
  then have "AList.delete key (cache c) = cache c"
    by simp
  with a show ?thesis
    by (simp add: get_def Let_def updateHitRate_def)
next
  fix entry
  assume "map_of (cache c) key = Some entry" and "isExpired c tCheck entry"
  then show ?thesis
    by (simp add: get_def Let_def updateHitRate_def add.commute)
qed

lemma get_hit_effect:
  assumes "map_of (cache c) key = Some entry" and "\<not> isExpired c tCheck entry"
  shows "fst (get c key tCheck tAccess d) = Some (value_e entry)
       \<and> cache (snd (get c key tCheck tAccess d))
           = AList.update key (entry\<lparr>lastAccessed := tAccess\<rparr>) (cache c)
       \<and> hits (stats (snd (get c key tCheck tAccess d))) = hits (stats c) + 1
       \<and> misses (stats (snd (get c key tCheck tAccess d))) = misses (stats c)
       \<and> avgAccessTime (stats (snd (get c key tCheck tAccess d))) =
           js_div (js_add (js_mul (avgAccessTime (stats c))
                                  (Fin (real (hits (stats c) + misses (stats c)))))
                          (Fin d))
                  (Fin (real (hits (stats c) + misses (stats c) + 1)))"
  using assms
  by (simp add: get_def Let_def updateHitRate_def updateAccessTime_def add.assoc)

text \<open>
  C4. An entry is expired exactly when \<open>now > created + ttl * 1000\<close>, the TTL being the
  entry's own or, when it has none, the default. A \<open>get\<close> of an expired entry removes it
  from the map, counts a miss and returns \<open>undefined\<close>. After a put on a newly built
  manager and a \<open>get\<close> of the same key later than the TTL, the result is \<open>undefined\<close>,
  the map is empty and \<open>totalEntries\<close> is 0.
\<close>

theorem expired_entry_is_purged_on_get:
  "(isExpired (c :: 'v cacheManager) now entry \<longleftrightarrow>
      now > created entry + (case ttl entry of Some t \<Rightarrow> t | None \<Rightarrow> defaultTTL (config c)) * 1000)
   \<and> (map_of (cache c) key = Some entry \<and> isExpired c now entry \<longrightarrow>
        fst (get c key now tAccess d) = None
      \<and> cache (snd (get c key now tAccess d)) = AList.delete key (cache c)
      \<and> map_of (cache (snd (get c key now tAccess d))) key = None
      \<and> misses (stats (snd (get c key now tAccess d))) = misses (stats c) + 1
      \<and> hits (stats (snd (get c key now tAccess d))) = hits (stats c))
   \<and> (set_op stringify (new_CacheManager cfg) key (v :: 'v) ttl_arg tCreated tAccessed d1 = Inr c1
        \<and> now > tCreated + (case ttl_arg of Some t \<Rightarrow> t
                             | None \<Rightarrow> defaultTTL (config (new_CacheManager cfg :: 'v cacheManager))) * 1000 \<longrightarrow>
        fst (get c1 key now tAccess d) = None
      \<and> cache (snd (get c1 key now tAccess d)) = []
      \<and> totalEntries (stats (snd (get c1 key now tAccess d))) = 0
      \<and> misses (stats (snd (get c1 key now tAccess d))) = 1)"
proof (intro conjI impI)
  show "isExpired c now entry \<longleftrightarrow>
      now > created entry + (case ttl entry of Some t \<Rightarrow> t | None \<Rightarrow> defaultTTL (config c)) * 1000"
    by (simp add: isExpired_def)
next
  assume a: "map_of (cache c) key = Some entry \<and> isExpired c now entry"
  then have m: "map_of (cache c) key = None
           \<or> (\<exists>entry. map_of (cache c) key = Some entry \<and> isExpired c now entry)"
    by blast
  note g = get_miss_effect[OF m, of tAccess d]
  from g show "fst (get c key now tAccess d) = None" by simp
  from g show "cache (snd (get c key now tAccess d)) = AList.delete key (cache c)" by simp
  from g show "map_of (cache (snd (get c key now tAccess d))) key = None"
    by (simp add: AList.delete_conv')
  from g show "misses (stats (snd (get c key now tAccess d))) = misses (stats c) + 1" by simp
  from g show "hits (stats (snd (get c key now tAccess d))) = hits (stats c)" by simp
next
  let ?c0 = "new_CacheManager cfg :: 'v cacheManager"
  assume a: "set_op stringify ?c0 key v ttl_arg tCreated tAccessed d1 = Inr c1
        \<and> now > tCreated + (case ttl_arg of Some t \<Rightarrow> t | None \<Rightarrow> defaultTTL (config ?c0)) * 1000"
  then obtain sz where sz: "calculateSize stringify v = Inr sz"
    by (auto simp: set_op_def split: sum.splits)
  have emp: "cache ?c0 = []" "misses (stats ?c0) = 0"
    by (simp_all add: new_CacheManager_def)
  have e0: "cache (enforceMemoryLimit ?c0 sz) = []"
    by (simp add: enforceMemoryLimit_def emp)
  let ?e = "\<lparr>value_e = v, created = tCreated, lastAccessed = tAccessed,
             ttl = Some (case ttl_arg of Some t \<Rightarrow> t | None \<Rightarrow> defaultTTL (config ?c0)),
             size_e = sz\<rparr>"
  from set_op_effect[OF sz, of ?c0 key ttl_arg tCreated tAccessed d1] a
  have c1: "cache c1 = [(key, ?e)]" "misses (stats c1) = 0" "config c1 = config ?c0"
    by (auto simp: Let_def emp e0)
  have look: "map_of (cache c1) key = Some ?e"
    by (simp add: c1)
  have ex: "isExpired c1 now ?e"
    using a by (simp add: isExpired_def c1)
  have r: "get c1 key now tAccess d =
        (None, updateHitRate ((snd (delete c1 key))\<lparr>stats := (stats (snd (delete c1 key)))
                  \<lparr>misses := misses (stats (snd (delete c1 key))) + 1\<rparr>\<rparr>))"
    using look ex by (simp add: get_def Let_def)
  have d: "snd (delete c1 key) = c1\<lparr>cache := [],
              stats := (stats c1)\<lparr>totalEntries := 0,
                                  memoryUsage := memoryUsage (stats c1) - int sz\<rparr>,
              sse := sse c1 @ [CacheDelete key]\<rparr>"
    using delete_present[OF look] by (simp add: c1)
  show "fst (get c1 key now tAccess d) = None" by (simp add: r)
  show "cache (snd (get c1 key now tAccess d)) = []"
    by (simp add: r d updateHitRate_def Let_def)
  show "totalEntries (stats (snd (get c1 key now tAccess d))) = 0"
    by (simp add: r d updateHitRate_def Let_def)
  show "misses (stats (snd (get c1 key now tAccess d))) = 1"
    by (simp add: r d updateHitRate_def Let_def c1)
qed

text \<open>
  The scenario with a TTL of one second: stored at time 0, read at time 1001.
\<close>

theorem expired_entry_is_purged_on_get_witness:
  "isExpired after_put_k 1001
     \<lparr>value_e = JsNull, created = 0, lastAccessed = 0, ttl = Some 1, size_e = 8\<rparr>
   \<and> map_of (cache after_put_k) ''k''
       = Some \<lparr>value_e = JsNull, created = 0, lastAccessed = 0, ttl = Some 1, size_e = 8\<rparr>
   \<and> set_op JSON_stringify (new_CacheManager noConfig) ''k'' JsNull (Some 1) 0 0 0 = Inr after_put_k
   \<and> (1001 :: int) > 0 + 1 * 1000
   \<and> fst (get after_put_k ''k'' 1001 1001 0) = None
   \<and> cache (snd (get after_put_k ''k'' 1001 1001 0)) = []
   \<and> totalEntries (stats (snd (get after_put_k ''k'' 1001 1001 0))) = 0
   \<and> misses (stats (snd (get after_put_k ''k'' 1001 1001 0))) = 1"
proof -
  let ?e = "\<lparr>value_e = JsNull, created = 0, lastAccessed = 0, ttl = Some 1, size_e = 8\<rparr>"
  have p: "set_op JSON_stringify (new_CacheManager noConfig) ''k'' JsNull (Some 1) 0 0 0
             = Inr after_put_k"
    by (simp add: set_op_def calculateSize_def updateAccessTime_def after_put_k_def fresh_def
          new_CacheManager_def noConfig_def Let_def)
  have l: "map_of (cache after_put_k) ''k'' = Some ?e"
    by (simp add: after_put_k_def)
  have x: "isExpired after_put_k 1001 ?e"
    by (simp add: isExpired_def)
  have t: "(1001 :: int) > 0 + 1 * 1000"
    by simp
  note T = expired_entry_is_purged_on_get[of after_put_k 1001 ?e "''k''" 1001 0
         JSON_stringify noConfig JsNull "Some 1" 0 0 0 after_put_k]
  have g: "fst (get after_put_k ''k'' 1001 1001 0) = None
         \<and> cache (snd (get after_put_k ''k'' 1001 1001 0)) = []
         \<and> totalEntries (stats (snd (get after_put_k ''k'' 1001 1001 0))) = 0
         \<and> misses (stats (snd (get after_put_k ''k'' 1001 1001 0))) = 1"
    by (rule mp[OF conjunct2[OF conjunct2[OF T]]]) (simp add: p)
  from x l p t g show ?thesis
    by blast
qed

text \<open>
  C5. A \<open>get\<close> of a key that is absent or expired should increment \<open>misses\<close>, recompute
  \<open>hitRate\<close>, record its latency in \<open>avgAccessTime\<close> and return \<open>undefined\<close>. Both miss
  paths return before \<open>updateAccessTime\<close>: a miss that took 1 ms on \<open>fresh\<close> counts the
  miss and leaves \<open>avgAccessTime\<close> at 0, and so does a \<open>get\<close> of the expired entry A of
  \<open>lru_example\<close>.
\<close>

theorem get_miss_does_not_record_latency:
  "get fresh ''missing'' 10 10 1 =
     (None, fresh\<lparr>stats := \<lparr>totalEntries = 0, memoryUsage = 0, hits = 0, misses = 1,
                            hitRate = 0, avgAccessTime = Fin 0\<rparr>\<rparr>)
   \<and> fst (get lru_example ''A'' 3600001 3600001 1) = None
   \<and> misses (stats (snd (get lru_example ''A'' 3600001 3600001 1))) = 1
   \<and> avgAccessTime (stats (snd (get lru_example ''A'' 3600001 3600001 1))) = Fin 0"
  by (simp add: get_def updateHitRate_def delete_def isExpired_def fresh_def lru_example_def
        new_CacheManager_def noConfig_def Let_def)

text \<open>
  C6. Every put and every get, hit or miss, should set \<open>avgAccessTime\<close> to
  \<open>(avgAccessTime * (n - 1) + d) / n\<close> with \<open>n = hits + misses\<close> after the operation. For the
  miss of 1 ms on \<open>fresh\<close>, \<open>n\<close> is 1 and the formula gives 1, and \<open>avgAccessTime\<close> is 0.
  \<open>set_op_effect\<close> and \<open>get_hit_effect\<close> show the formula for a put and for a hit.
\<close>

theorem get_miss_breaks_running_mean:
  "hits (stats (snd (get fresh ''missing'' 10 10 1)))
     + misses (stats (snd (get fresh ''missing'' 10 10 1))) = 1
   \<and> avgAccessTime (stats (snd (get fresh ''missing'' 10 10 1))) = Fin 0
   \<and> js_div (js_add (js_mul (avgAccessTime (stats fresh)) (Fin (real_of_int (int 1 - 1))))
                     (Fin 1))
             (Fin (real 1)) = Fin 1"
  by (simp add: get_def updateHitRate_def fresh_def new_CacheManager_def noConfig_def Let_def)

section \<open>Failure of set\<close>




section \<open>The latency update without requests\<close>

lemma js_div_zero_not_finite: "\<not> js_finite (js_div x (Fin 0))"
  by (cases x) simp_all

lemma not_finite_cases: "\<not> js_finite x \<Longrightarrow> x = PInf \<or> x = NInf \<or> x = NaN"
  by (cases x) simp_all

text \<open>
  C10, as the code has it. A put while \<open>hits + misses = 0\<close> divides by zero in
  \<open>updateAccessTime\<close>: \<open>avgAccessTime\<close> becomes \<open>(avgAccessTime * (-1) + d) / 0\<close>, which is
  \<open>Infinity\<close>, \<open>-Infinity\<close> or NaN and never the duration \<open>d\<close>; nothing guards the
  division. From \<open>avgAccessTime = 0\<close> it is NaN for \<open>d = 0\<close> and \<open>Infinity\<close> for a
  positive \<open>d\<close>; from \<open>Infinity\<close> it is \<open>-Infinity\<close>, from \<open>-Infinity\<close> it is
  \<open>Infinity\<close>, and from NaN it is NaN.
\<close>

theorem put_with_no_requests_divides_by_zero:
  assumes "hits (stats c) + misses (stats c) = 0"
      and "set_op stringify c key v ttl_arg tCreated tAccessed d = Inr c'"
  shows "avgAccessTime (stats c')
           = js_div (js_add (js_mul (avgAccessTime (stats c)) (Fin (- 1))) (Fin d)) (Fin 0)
       \<and> (avgAccessTime (stats c') = PInf \<or> avgAccessTime (stats c') = NInf
            \<or> avgAccessTime (stats c') = NaN)
       \<and> \<not> js_finite (avgAccessTime (stats c'))
       \<and> avgAccessTime (stats c') \<noteq> Fin d
       \<and> (avgAccessTime (stats c) = Fin 0 \<longrightarrow>
            avgAccessTime (stats c') = (if d = 0 then NaN else if 0 < d then PInf else NInf))
       \<and> (avgAccessTime (stats c) = PInf \<longrightarrow> avgAccessTime (stats c') = NInf)
       \<and> (avgAccessTime (stats c) = NInf \<longrightarrow> avgAccessTime (stats c') = PInf)
       \<and> (avgAccessTime (stats c) = NaN \<longrightarrow> avgAccessTime (stats c') = NaN)"
proof -
  from assms(2) obtain sz where sz: "calculateSize stringify v = Inr sz"
    by (auto simp: set_op_def split: sum.splits)
  from set_op_effect[OF sz, of c key ttl_arg tCreated tAccessed d] assms
  have avg: "avgAccessTime (stats c')
           = js_div (js_add (js_mul (avgAccessTime (stats c)) (Fin (- 1))) (Fin d)) (Fin 0)"
    by (auto simp: Let_def)
  have nf: "\<not> js_finite (avgAccessTime (stats c'))"
    unfolding avg by (rule js_div_zero_not_finite)
  then have ne: "avgAccessTime (stats c') \<noteq> Fin d"
    by auto
  from nf have three: "avgAccessTime (stats c') = PInf \<or> avgAccessTime (stats c') = NInf
            \<or> avgAccessTime (stats c') = NaN"
    by (rule not_finite_cases)
  have z: "avgAccessTime (stats c) = Fin 0 \<longrightarrow>
            avgAccessTime (stats c') = (if d = 0 then NaN else if 0 < d then PInf else NInf)"
    by (simp add: avg)
  have p: "avgAccessTime (stats c) = PInf \<longrightarrow> avgAccessTime (stats c') = NInf"
    by (simp add: avg)
  have n: "avgAccessTime (stats c) = NInf \<longrightarrow> avgAccessTime (stats c') = PInf"
    by (simp add: avg)
  have a: "avgAccessTime (stats c) = NaN \<longrightarrow> avgAccessTime (stats c') = NaN"
    by (simp add: avg)
  from avg three nf ne z p n a show ?thesis by blast
qed

text \<open>
  The first put on \<open>fresh\<close>, taking half a millisecond, gives \<open>Infinity\<close>.
\<close>

theorem put_with_no_requests_divides_by_zero_witness:
  "hits (stats fresh) + misses (stats fresh) = 0
   \<and> set_op JSON_stringify fresh ''k'' JsNull None 5 5 (1/2) =
       Inr (fresh\<lparr>cache := [(''k'', \<lparr>value_e = JsNull, created = 5, lastAccessed = 5,
                                     ttl = Some 3600, size_e = 8\<rparr>)],
                  stats := \<lparr>totalEntries = 1, memoryUsage = 8, hits = 0, misses = 0,
                            hitRate = 0, avgAccessTime = PInf\<rparr>,
                  sse := [CacheSet ''k'' JsNull]\<rparr>)
   \<and> \<not> js_finite PInf \<and> PInf \<noteq> Fin (1/2)"
proof -
  have h: "hits (stats fresh) + misses (stats fresh) = 0"
    by (simp add: fresh_def new_CacheManager_def)
  have e: "set_op JSON_stringify fresh ''k'' JsNull None 5 5 (1/2) =
       Inr (fresh\<lparr>cache := [(''k'', \<lparr>value_e = JsNull, created = 5, lastAccessed = 5,
                                     ttl = Some 3600, size_e = 8\<rparr>)],
                  stats := \<lparr>totalEntries = 1, memoryUsage = 8, hits = 0, misses = 0,
                            hitRate = 0, avgAccessTime = PInf\<rparr>,
                  sse := [CacheSet ''k'' JsNull]\<rparr>)"
    by (simp add: set_op_def calculateSize_def updateAccessTime_def fresh_def
          new_CacheManager_def noConfig_def Let_def)
  from put_with_no_requests_divides_by_zero[OF h e] h e show ?thesis
    by simp
qed

text \<open>
  C10, as stated, fails: it names \<open>Infinity\<close> and NaN as the values. After a first put of
  1 ms on \<open>fresh\<close> the average is \<open>Infinity\<close> and \<open>hits + misses\<close> is still 0; a second
  put of 1 ms then sets it to \<open>-Infinity\<close>.
\<close>

theorem second_put_gives_negative_infinity:
  "set_op JSON_stringify fresh ''k'' JsNull None 0 0 1 = Inr after_first_put
   \<and> hits (stats after_first_put) + misses (stats after_first_put) = 0
   \<and> set_op JSON_stringify after_first_put ''j'' JsNull None 1 1 1 = Inr after_second_put
   \<and> avgAccessTime (stats after_second_put) = NInf
   \<and> NInf \<noteq> PInf \<and> NInf \<noteq> NaN"
  by (simp add: set_op_def calculateSize_def updateAccessTime_def fresh_def
        after_first_put_def after_second_put_def new_CacheManager_def noConfig_def Let_def)

end
